theory Spec2Isabelle
  imports Main "HOL-Library.Sublist"
begin

section \<open>Python string primitives used by the views\<close>

text \<open>
  Strings are lists of characters.  The three built-in operations the views of
  \<^verbatim>\<open>ask_cfpb/views.py\<close> use on them are the substring test \<^verbatim>\<open>sub in s\<close>,
  \<^verbatim>\<open>s.replace(old, new)\<close> and \<^verbatim>\<open>s.strip()\<close>.
\<close>

text \<open>\<^verbatim>\<open>sub in s\<close>: does \<open>sub\<close> occur at some position of \<open>s\<close>.\<close>

fun str_contains :: "string \<Rightarrow> string \<Rightarrow> bool" where
  "str_contains sub [] = (sub = [])"
| "str_contains sub (c # cs) = (prefix sub (c # cs) \<or> str_contains sub cs)"

text \<open>
  \<^verbatim>\<open>s.replace(old, new)\<close>: scan from the left; where \<open>old\<close> starts, emit \<open>new\<close> and
  go on behind the occurrence, otherwise keep the character.  With an empty \<open>old\<close>
  Python puts \<open>new\<close> before every character and at the end.
\<close>

fun replace_scan :: "char \<Rightarrow> string \<Rightarrow> string \<Rightarrow> string \<Rightarrow> string" where
  "replace_scan a as new [] = []"
| "replace_scan a as new (c # cs) =
     (if prefix (a # as) (c # cs)
      then new @ replace_scan a as new (drop (length as) cs)
      else c # replace_scan a as new cs)"

fun str_replace :: "string \<Rightarrow> string \<Rightarrow> string \<Rightarrow> string" where
  "str_replace [] new s = new @ concat (map (\<lambda>c. c # new) s)"
| "str_replace (a # as) new s = replace_scan a as new s"

text \<open>
  \<^verbatim>\<open>c.isspace()\<close> on the code points below 256: tab to carriage return, the four
  separators FS, GS, RS, US, the space, NEL and the no-break space.
\<close>

definition isspace :: "char \<Rightarrow> bool" where
  "isspace c =
     (let n = (of_char c :: nat)
      in (9 \<le> n \<and> n \<le> 13) \<or> (28 \<le> n \<and> n \<le> 32) \<or> n = 133 \<or> n = 160)"

text \<open>\<^verbatim>\<open>s.strip()\<close>: drop the white space at both ends.\<close>

definition strip :: "string \<Rightarrow> string" where
  "strip s = rev (dropWhile isspace (rev (dropWhile isspace s)))"


section \<open>The legacy facet redirector: \<^verbatim>\<open>redirect_ask_search\<close>\<close>

text \<open>
  The view returns \<^verbatim>\<open>redirect(url, permanent=True)\<close> or raises \<^verbatim>\<open>Http404\<close>.  A
  response records the URL handed to \<^verbatim>\<open>redirect\<close>; the raise is the left summand.
\<close>

datatype http_error = Http404

datatype response = PermanentRedirect string

type_synonym outcome = "http_error + response"

definition category_facet :: string where
  "category_facet = ''category_exact:''"

definition audience_facet :: string where
  "audience_facet = ''audience_exact:''"

definition tag_facet :: string where
  "tag_facet = ''tag_exact:''"

definition redirect_to_category :: "string \<Rightarrow> string \<Rightarrow> response" where
  "redirect_to_category category language =
     (if language = ''es''
      then PermanentRedirect (''/es/obtener-respuestas/categoria-'' @ category @ ''/'')
      else PermanentRedirect (''/ask-cfpb/category-'' @ category @ ''/''))"

definition redirect_to_audience :: "string \<Rightarrow> response" where
  "redirect_to_audience audience =
     PermanentRedirect (''/ask-cfpb/audience-'' @ audience @ ''/'')"

definition redirect_to_tag :: "string \<Rightarrow> string \<Rightarrow> response" where
  "redirect_to_tag tag language =
     (if language = ''es''
      then PermanentRedirect (''/es/obtener-respuestas/buscar-por-etiqueta/'' @ tag @ ''/'')
      else PermanentRedirect (''/ask-cfpb/search-by-tag/'' @ tag @ ''/''))"

text \<open>
  The three loops over \<^verbatim>\<open>facets\<close>.  Each returns from the view at the first facet
  that holds its marker and leaves a non-empty value once the marker is taken
  out; \<open>None\<close> is the loop running to its end.  Django's \<^verbatim>\<open>slugify\<close> is a library
  function outside the repository and is a parameter.
\<close>

fun category_loop :: "(string \<Rightarrow> string) \<Rightarrow> string \<Rightarrow> string list \<Rightarrow> response option" where
  "category_loop slugify language [] = None"
| "category_loop slugify language (facet # facets) =
     (if str_contains category_facet facet
      then (let category = str_replace category_facet [] facet
            in if category \<noteq> []
               then Some (redirect_to_category (slugify category) language)
               else category_loop slugify language facets)
      else category_loop slugify language facets)"

fun audience_loop :: "(string \<Rightarrow> string) \<Rightarrow> string list \<Rightarrow> response option" where
  "audience_loop slugify [] = None"
| "audience_loop slugify (facet # facets) =
     (if str_contains audience_facet facet
      then (let audience_raw = str_replace audience_facet [] facet
            in if audience_raw \<noteq> []
               then Some (redirect_to_audience (slugify (str_replace ''+'' ''-'' audience_raw)))
               else audience_loop slugify facets)
      else audience_loop slugify facets)"

fun tag_loop :: "string \<Rightarrow> string list \<Rightarrow> response option" where
  "tag_loop language [] = None"
| "tag_loop language (facet # facets) =
     (if str_contains tag_facet facet
      then (let raw_tag = str_replace tag_facet [] facet
            in if raw_tag \<noteq> []
               then Some (redirect_to_tag
                      (str_replace ''+'' ''_''
                        (str_replace ''%20'' ''_''
                          (str_replace '' '' ''_'' raw_tag))) language)
               else tag_loop language facets)
      else tag_loop language facets)"

text \<open>
  \<open>q\<close> is \<^verbatim>\<open>request.GET.get('q')\<close> (\<open>None\<close> when the key is absent) and \<open>facets\<close> is
  \<^verbatim>\<open>request.GET.getlist('selected_facets')\<close>.  Python's truth test of \<open>q\<close> fails on
  \<open>None\<close> and on the empty string.
\<close>

definition truthy :: "string option \<Rightarrow> bool" where
  "truthy q = (case q of None \<Rightarrow> False | Some s \<Rightarrow> s \<noteq> [])"

definition redirect_ask_search ::
  "(string \<Rightarrow> string) \<Rightarrow> string option \<Rightarrow> string list \<Rightarrow> string \<Rightarrow> outcome" where
  "redirect_ask_search slugify q facets language =
     (if truthy q
      then (let querystring = strip (the q)
            in if querystring = []
               then Inr (PermanentRedirect ''/ask-cfpb/search/'')
               else Inr (PermanentRedirect (''/ask-cfpb/search/?q='' @ querystring)))
      else (case facets of
              [] \<Rightarrow> Inr (PermanentRedirect ''/ask-cfpb/search/'')
            | first # _ \<Rightarrow>
                if first = [] then Inr (PermanentRedirect ''/ask-cfpb/search/'')
                else (case category_loop slugify language facets of
                        Some r \<Rightarrow> Inr r
                      | None \<Rightarrow>
                         (case audience_loop slugify facets of
                            Some r \<Rightarrow> Inr r
                          | None \<Rightarrow>
                             (case tag_loop language facets of
                                Some r \<Rightarrow> Inr r
                              | None \<Rightarrow> Inl Http404)))))"

text \<open>
  The two tests every loop makes on a facet: the marker occurs in it, and what is
  left once the marker is taken out is not empty.
\<close>

definition has_value :: "string \<Rightarrow> string \<Rightarrow> bool" where
  "has_value marker facet = (str_contains marker facet \<and> str_replace marker [] facet \<noteq> [])"

text \<open>
  The tag normalisation as the specification words it, in one pass: every space,
  every \<^verbatim>\<open>+\<close> and every substring \<^verbatim>\<open>%20\<close> becomes one underscore.  It is compared
  below with the three chained \<^verbatim>\<open>replace\<close> calls of the view.
\<close>

fun underscored :: "string \<Rightarrow> string" where
  "underscored [] = []"
| "underscored (c # cs) =
     (if c = CHR '' '' \<or> c = CHR ''+'' then CHR ''_'' # underscored cs
      else if prefix ''%20'' (c # cs) then CHR ''_'' # underscored (drop 2 cs)
      else c # underscored cs)"


section \<open>The link annotator: \<^verbatim>\<open>annotate_links\<close>\<close>

subsection \<open>The site table\<close>

text \<open>
  \<^verbatim>\<open>Site.objects.get(is_default_site=True)\<close> reads the table of sites.  Of a site
  the view uses the flag and \<^verbatim>\<open>root_url\<close>.  Django's \<^verbatim>\<open>get\<close> raises
  \<^verbatim>\<open>DoesNotExist\<close> when no row matches and \<^verbatim>\<open>MultipleObjectsReturned\<close> when more
  than one does.  The exceptions that can leave \<^verbatim>\<open>annotate_links\<close> are the values of
  \<open>error\<close>; the view catches \<^verbatim>\<open>DoesNotExist\<close> alone and raises \<^verbatim>\<open>RuntimeError\<close> for it.
\<close>

record site =
  is_default_site :: bool
  root_url :: string

datatype error =
    DoesNotExist
  | MultipleObjectsReturned
  | RuntimeError string
  | ValueError

definition objects_get :: "site list \<Rightarrow> error + site" where
  "objects_get sites =
     (case filter is_default_site sites of
        [] \<Rightarrow> Inl DoesNotExist
      | [s] \<Rightarrow> Inr s
      | _ \<Rightarrow> Inl MultipleObjectsReturned)"

subsection \<open>The parsed document\<close>

text \<open>
  A BeautifulSoup document is a tree of page elements: strings, and tags with a
  name, a dictionary of attributes and a list of contents.  Every element is a
  Python object; its identity is the number it carries, so that two tags that
  look alike are still told apart, as \<^verbatim>\<open>parent.index(link)\<close> does.
\<close>

datatype node =
    NavigableString nat string
  | Tag nat string "(string \<times> string) list" "node list"

fun node_id :: "node \<Rightarrow> nat" where
  "node_id (NavigableString i s) = i"
| "node_id (Tag i name attrs contents) = i"

text \<open>\<^verbatim>\<open>tag.get(key)\<close>: the attribute's value, \<open>None\<close> when the tag has none.\<close>

fun tag_get :: "node \<Rightarrow> string \<Rightarrow> string option" where
  "tag_get (NavigableString i s) key = None"
| "tag_get (Tag i name attrs contents) key = map_of attrs key"

fun has_name :: "string \<Rightarrow> node \<Rightarrow> bool" where
  "has_name name (NavigableString i s) = False"
| "has_name name (Tag i n attrs contents) = (n = name)"

text \<open>The elements below a node, in document order.\<close>

fun descendants :: "node \<Rightarrow> node list" where
  "descendants (NavigableString i s) = []"
| "descendants (Tag i name attrs contents) = concat (map (\<lambda>c. c # descendants c) contents)"

text \<open>\<^verbatim>\<open>soup.findAll(name)\<close>: the tags of that name below the root, in document order.\<close>

definition findAll :: "string \<Rightarrow> node \<Rightarrow> node list" where
  "findAll name soup = filter (has_name name) (descendants soup)"

text \<open>New objects get identities that no element of the document carries.\<close>

fun node_ids :: "node \<Rightarrow> nat list" where
  "node_ids (NavigableString i s) = [i]"
| "node_ids (Tag i name attrs contents) = i # concat (map node_ids contents)"

definition fresh :: "node \<Rightarrow> nat" where
  "fresh soup = Suc (fold max (node_ids soup) 0)"

text \<open>\<^verbatim>\<open>str(index)\<close>: the decimal numeral of an integer.\<close>

fun digits :: "nat \<Rightarrow> string" where
  "digits n =
     (if n < 10 then [char_of (48 + n)]
      else digits (n div 10) @ [char_of (48 + n mod 10)])"

definition str_int :: "int \<Rightarrow> string" where
  "str_int i = (if i < 0 then CHR ''-'' # digits (nat (- i)) else digits (nat i))"

text \<open>
  \<^verbatim>\<open>super_tag = soup.new_tag('sup'); super_tag.string = str(index)\<close>: a new tag
  without attributes whose only content is a new string.
\<close>

definition new_sup :: "node \<Rightarrow> int \<Rightarrow> node" where
  "new_sup soup index =
     Tag (fresh soup) ''sup'' [] [NavigableString (Suc (fresh soup)) (str_int index)]"

text \<open>
  \<^verbatim>\<open>parent = link.parent; link_location = parent.index(link);
  parent.insert(link_location + 1, super_tag)\<close>: the parent is the tag that has the
  link among its contents, \<open>index\<close> finds the link there by identity, and the new
  tag goes in right behind it.
\<close>

definition index_of :: "nat \<Rightarrow> node list \<Rightarrow> nat" where
  "index_of i contents = length (takeWhile (\<lambda>c. node_id c \<noteq> i) contents)"

definition list_insert :: "nat \<Rightarrow> 'a \<Rightarrow> 'a list \<Rightarrow> 'a list" where
  "list_insert k x xs = take k xs @ x # drop k xs"

fun insert_after :: "nat \<Rightarrow> node \<Rightarrow> node \<Rightarrow> node" where
  "insert_after i new (NavigableString j s) = NavigableString j s"
| "insert_after i new (Tag j name attrs contents) =
     (if i \<in> node_id ` set contents
      then Tag j name attrs (list_insert (index_of i contents + 1) new contents)
      else Tag j name attrs (map (insert_after i new) contents))"

subsection \<open>The view\<close>

text \<open>
  The loop over \<^verbatim>\<open>links\<close>, with the document, the footnotes and the index as its
  state.  A link is a tag of the document; the loop changes no attribute, so
  \<^verbatim>\<open>link.get('href')\<close> is read from the tag as \<^verbatim>\<open>findAll\<close> returned it.
  \<^verbatim>\<open>urljoin\<close> belongs to Python's library and is a parameter; it raises
  \<^verbatim>\<open>ValueError\<close> on a URL it cannot split, which is its result \<open>None\<close>.
\<close>

fun annotate_loop ::
  "(string \<Rightarrow> string \<Rightarrow> string option) \<Rightarrow> string \<Rightarrow> node list \<Rightarrow>
   node \<Rightarrow> (int \<times> string) list \<Rightarrow> int \<Rightarrow> error + (node \<times> (int \<times> string) list)" where
  "annotate_loop urljoin root [] soup footnotes index = Inr (soup, footnotes)"
| "annotate_loop urljoin root (link # links) soup footnotes index =
     (if \<not> truthy (tag_get link ''href'')
      then annotate_loop urljoin root links soup footnotes index
      else (case urljoin root (the (tag_get link ''href'')) of
              None \<Rightarrow> Inl ValueError
            | Some url \<Rightarrow>
                annotate_loop urljoin root links
                  (insert_after (node_id link) (new_sup soup index) soup)
                  (footnotes @ [(index, url)])
                  (index + 1)))"

text \<open>
  \<open>sites\<close> is the site table, \<open>bs\<close> is \<^verbatim>\<open>BeautifulSoup(_, 'lxml')\<close> and \<open>str_soup\<close>
  is \<^verbatim>\<open>str\<close> on a document; parser and serialiser are library code and are
  parameters.
\<close>

definition annotate_links ::
  "site list \<Rightarrow> (string \<Rightarrow> node) \<Rightarrow> (string \<Rightarrow> string \<Rightarrow> string option) \<Rightarrow>
   (node \<Rightarrow> string) \<Rightarrow> string \<Rightarrow> error + (string \<times> (int \<times> string) list)" where
  "annotate_links sites bs urljoin str_soup answer_text =
     (case objects_get sites of
        Inl DoesNotExist \<Rightarrow> Inl (RuntimeError ''no default wagtail site configured'')
      | Inl e \<Rightarrow> Inl e
      | Inr default_site \<Rightarrow>
          (let soup = bs answer_text;
               links = findAll ''a'' soup
           in case annotate_loop urljoin (root_url default_site) links soup [] 1 of
                Inl e \<Rightarrow> Inl e
              | Inr (soup', footnotes) \<Rightarrow> Inr (str_soup soup', footnotes)))"


section \<open>Facts about the string primitives\<close>

lemma str_contains_sublist: "str_contains sub s = sublist sub s"
  by (induction s) (simp_all add: sublist_Cons_right)

lemma str_contains_iff: "str_contains sub s \<longleftrightarrow> (\<exists>pre post. s = pre @ sub @ post)"
  by (simp add: str_contains_sublist sublist_def)

lemma replace_scan_char:
  "replace_scan a [] [b] s = map (\<lambda>x. if x = a then b else x) s"
  by (induction s) auto

lemma replace_scan_absent:
  "\<not> sublist (a # as) s \<Longrightarrow> replace_scan a as new s = s"
  by (induction s) (auto simp: sublist_Cons_right)

lemma prefix_within:
  assumes "prefix xs (ys @ zs)" and "length xs \<le> length ys"
  shows "prefix xs ys"
proof -
  from assms(1) consider "prefix xs ys" | us where "xs = ys @ us"
    by (auto simp: prefix_append)
  then show ?thesis
  proof cases
    case 1 then show ?thesis .
  next
    case 2
    with assms(2) have "us = []" by simp
    with 2 show ?thesis by simp
  qed
qed

lemma split_last: "c # pre @ (a # as) @ post = (c # pre @ butlast (a # as)) @ (last (a # as) # post)"
proof -
  have "a # as = butlast (a # as) @ [last (a # as)]"
    by (rule append_butlast_last_id [symmetric]) simp
  then have "pre @ (a # as) @ post = pre @ (butlast (a # as) @ [last (a # as)]) @ post"
    by (rule arg_cong)
  then show ?thesis by (simp only: append_assoc append_Cons append_Nil)
qed

lemma replace_scan_first:
  assumes "\<not> sublist (a # as) (pre @ butlast (a # as))"
  shows "replace_scan a as new (pre @ (a # as) @ post) = pre @ new @ replace_scan a as new post"
  using assms
proof (induction pre)
  case Nil
  then show ?case by simp
next
  case (Cons c pre)
  have np: "\<not> prefix (a # as) (c # pre @ (a # as) @ post)"
  proof
    assume "prefix (a # as) (c # pre @ (a # as) @ post)"
    then have "prefix (a # as) ((c # pre @ butlast (a # as)) @ (last (a # as) # post))"
      by (simp only: split_last)
    moreover have "length (a # as) \<le> length (c # pre @ butlast (a # as))" by simp
    ultimately have "prefix (a # as) (c # pre @ butlast (a # as))"
      by (rule prefix_within)
    then have "sublist (a # as) (c # pre @ butlast (a # as))"
      by (simp only: sublist_Cons_right) simp
    with Cons.prems show False by (simp del: butlast.simps)
  qed
  have "\<not> sublist (a # as) (c # pre @ butlast (a # as))"
    using Cons.prems by (simp del: butlast.simps)
  then have "\<not> sublist (a # as) (pre @ butlast (a # as))"
    by (simp only: sublist_Cons_right) simp
  then have "replace_scan a as new (pre @ (a # as) @ post) = pre @ new @ replace_scan a as new post"
    by (rule Cons.IH)
  with np show ?case by (simp del: prefix_code)
qed


lemma prefix_pct_map:
  "prefix ''%20'' (map (\<lambda>x. if x = CHR '' '' then CHR ''_'' else x) xs) = prefix ''%20'' xs"
proof (cases xs)
  case Nil then show ?thesis by simp
next
  case (Cons x1 r1)
  show ?thesis
  proof (cases r1)
    case Nil with Cons show ?thesis by simp
  next
    case (Cons x2 r2)
    note c2 = this
    show ?thesis
    proof (cases r2)
      case Nil with c2 \<open>xs = x1 # r1\<close> show ?thesis by simp
    next
      case (Cons x3 r3)
      with c2 \<open>xs = x1 # r1\<close> show ?thesis by simp
    qed
  qed
qed

lemma underscored_refines:
  "str_replace ''+'' ''_'' (str_replace ''%20'' ''_'' (str_replace '' '' ''_'' s)) = underscored s"
proof -
  let ?sp = "\<lambda>x. if x = CHR '' '' then CHR ''_'' else x"
  let ?pl = "\<lambda>x. if x = CHR ''+'' then CHR ''_'' else x"
  have "map ?pl (replace_scan (CHR ''%'') ''20'' ''_'' (map ?sp s)) = underscored s"
  proof (induction s rule: underscored.induct)
    case 1
    then show ?case by simp
  next
    case (2 c cs)
    show ?case
    proof (cases "c = CHR '' '' \<or> c = CHR ''+''")
      case True
      with 2 show ?thesis by auto
    next
      case False
      note nf = this
      show ?thesis
      proof (cases "prefix ''%20'' (c # cs)")
        case True
        then obtain r where cs: "c = CHR ''%''" "cs = CHR ''2'' # CHR ''0'' # r"
          by (cases cs; cases "tl cs") auto
        have "map ?pl (replace_scan (CHR ''%'') ''20'' ''_'' (map ?sp r)) = underscored r"
          using 2(2) nf True cs by simp
        with cs show ?thesis by simp
      next
        case False
        have "\<not> prefix ''%20'' (map ?sp (c # cs))"
          by (subst prefix_pct_map) (rule False)
        then have rs: "replace_scan (CHR ''%'') ''20'' ''_'' (map ?sp (c # cs)) = c # replace_scan (CHR ''%'') ''20'' ''_'' (map ?sp cs)"
          using nf by auto
        have ih: "map ?pl (replace_scan (CHR ''%'') ''20'' ''_'' (map ?sp cs)) = underscored cs"
          by (rule 2(3) [OF nf False])
        have us: "underscored (c # cs) = c # underscored cs"
          using nf False by auto
        have "map ?pl (replace_scan (CHR ''%'') ''20'' ''_'' (map ?sp (c # cs))) =
              ?pl c # map ?pl (replace_scan (CHR ''%'') ''20'' ''_'' (map ?sp cs))"
          by (subst rs) (simp only: list.map)
        also have "\<dots> = c # underscored cs"
          using nf by (simp only: ih) simp
        finally show ?thesis by (simp only: us)
      qed
    qed
  qed
  then show ?thesis by (simp add: replace_scan_char)
qed

lemma replace_absent:
  "old \<noteq> [] \<Longrightarrow> \<not> str_contains old s \<Longrightarrow> str_replace old new s = s"
  by (cases old) (simp_all add: str_contains_sublist replace_scan_absent)

lemma replace_first:
  assumes "old \<noteq> []" and "\<not> str_contains old (pre @ butlast old)"
  shows "str_replace old new (pre @ old @ post) = pre @ new @ str_replace old new post"
proof -
  from assms(1) obtain a as where old: "old = a # as" by (cases old) auto
  have "\<not> sublist (a # as) (pre @ butlast (a # as))"
    using assms(2) unfolding old str_contains_sublist .
  then have "replace_scan a as new (pre @ (a # as) @ post) = pre @ new @ replace_scan a as new post"
    by (rule replace_scan_first)
  then show ?thesis by (simp only: old str_replace.simps)
qed



section \<open>Facts about the three loops\<close>

lemma category_loop_find:
  "category_loop slugify language facets =
     (case find (has_value category_facet) facets of
        None \<Rightarrow> None
      | Some f \<Rightarrow> Some (redirect_to_category (slugify (str_replace category_facet [] f)) language))"
  by (induction facets) (simp_all add: has_value_def Let_def)

lemma audience_loop_find:
  "audience_loop slugify facets =
     (case find (has_value audience_facet) facets of
        None \<Rightarrow> None
      | Some f \<Rightarrow> Some (redirect_to_audience
                 (slugify (str_replace ''+'' ''-'' (str_replace audience_facet [] f)))))"
  by (induction facets) (simp_all add: has_value_def Let_def)

lemma tag_loop_find:
  "tag_loop language facets =
     (case find (has_value tag_facet) facets of
        None \<Rightarrow> None
      | Some f \<Rightarrow> Some (redirect_to_tag (underscored (str_replace tag_facet [] f)) language))"
  by (induction facets) (simp_all add: has_value_def Let_def underscored_refines del: str_replace.simps)

lemma find_first:
  "(\<forall>g\<in>set pre. \<not> P g) \<Longrightarrow> P f \<Longrightarrow> find P (pre @ f # post) = Some f"
  by (induction pre) simp_all

lemma find_absent:
  "(\<forall>g\<in>set xs. \<not> P g) \<Longrightarrow> find P xs = None"
  by (simp add: find_None_iff)

lemma redirect_ask_search_bare:
  assumes "\<not> truthy q" and "facets = [] \<or> hd facets = []"
  shows "redirect_ask_search slugify q facets language = Inr (PermanentRedirect ''/ask-cfpb/search/'')"
  using assms by (cases facets) (simp_all add: redirect_ask_search_def)

lemma redirect_ask_search_facets:
  assumes "\<not> truthy q" and "facets \<noteq> []" and "hd facets \<noteq> []"
  shows "redirect_ask_search slugify q facets language =
    (case find (has_value category_facet) facets of
       Some f \<Rightarrow> Inr (redirect_to_category (slugify (str_replace category_facet [] f)) language)
     | None \<Rightarrow>
        (case find (has_value audience_facet) facets of
           Some f \<Rightarrow> Inr (redirect_to_audience
                      (slugify (str_replace ''+'' ''-'' (str_replace audience_facet [] f))))
         | None \<Rightarrow>
            (case find (has_value tag_facet) facets of
               Some f \<Rightarrow> Inr (redirect_to_tag (underscored (str_replace tag_facet [] f)) language)
             | None \<Rightarrow> Inl Http404)))"
proof -
  from assms(2,3) obtain first rest where f: "facets = first # rest" "first \<noteq> []"
    by (cases facets) auto
  have "redirect_ask_search slugify q facets language =
    (case category_loop slugify language facets of
       Some r \<Rightarrow> Inr r
     | None \<Rightarrow>
        (case audience_loop slugify facets of
           Some r \<Rightarrow> Inr r
         | None \<Rightarrow> (case tag_loop language facets of Some r \<Rightarrow> Inr r | None \<Rightarrow> Inl Http404)))"
    using assms(1) f(2) unfolding f(1)
    by (simp add: redirect_ask_search_def del: category_loop.simps audience_loop.simps tag_loop.simps)
  then show ?thesis
    by (simp only: category_loop_find audience_loop_find tag_loop_find split: option.split)
       (simp split: option.split)
qed



section \<open>The claims about the redirector\<close>

text \<open>
  C2, as amended.  With no query text (\<open>q\<close> absent or empty) the view raises
  \<^verbatim>\<open>Http404\<close> exactly when the facet list is not empty, its first element is not
  empty, and no facet holds a category, audience or tag marker with a non-empty
  value.  When the facet list is empty or its first element is empty, the view
  does not raise: it redirects permanently to the bare search page.
\<close>

theorem not_found_exactly:
  assumes "\<not> truthy q"
  shows "(redirect_ask_search slugify q facets language = Inl Http404 \<longleftrightarrow>
            facets \<noteq> [] \<and> hd facets \<noteq> [] \<and>
            (\<forall>f\<in>set facets. \<not> has_value category_facet f \<and>
                              \<not> has_value audience_facet f \<and>
                              \<not> has_value tag_facet f))
       \<and> (facets = [] \<or> hd facets = [] \<longrightarrow>
            redirect_ask_search slugify q facets language =
              Inr (PermanentRedirect ''/ask-cfpb/search/''))"
proof (cases "facets = [] \<or> hd facets = []")
  case True
  with assms have "redirect_ask_search slugify q facets language =
      Inr (PermanentRedirect ''/ask-cfpb/search/'')"
    by (rule redirect_ask_search_bare)
  with True show ?thesis by auto
next
  case False
  then have ne: "facets \<noteq> []" "hd facets \<noteq> []" by simp_all
  note eq = redirect_ask_search_facets [OF assms ne, of slugify language]
  have "redirect_ask_search slugify q facets language = Inl Http404 \<longleftrightarrow>
        find (has_value category_facet) facets = None \<and>
        find (has_value audience_facet) facets = None \<and>
        find (has_value tag_facet) facets = None"
    by (simp only: eq split: option.split) simp
  also have "\<dots> \<longleftrightarrow> (\<forall>f\<in>set facets. \<not> has_value category_facet f \<and>
                              \<not> has_value audience_facet f \<and>
                              \<not> has_value tag_facet f)"
    by (auto simp: find_None_iff)
  finally show ?thesis using ne by simp
qed

theorem not_found_exactly_witness:
  "\<not> truthy None \<and> redirect_ask_search id None [''mortgages''] ''en'' = Inl Http404
   \<and> redirect_ask_search id None [''category_exact:''] ''en'' = Inl Http404"
  using not_found_exactly [of None id "[''mortgages'']" "''en''"]
        not_found_exactly [of None id "[''category_exact:'']" "''en''"]
  by (simp add: truthy_def has_value_def category_facet_def audience_facet_def tag_facet_def)

theorem not_found_counterexample:
  "redirect_ask_search id (Some '''') [] ''en'' \<noteq> Inl Http404
   \<and> redirect_ask_search id (Some '''') [] ''en'' = Inr (PermanentRedirect ''/ask-cfpb/search/'')"
  by (simp add: redirect_ask_search_def truthy_def)

text \<open>
  C3, as amended.  With no query text and a facet list whose first element is not
  empty, the order of the facets does not decide between the types: wherever a
  facet with a non-empty tag value stands in the list, a facet with a non-empty
  category value anywhere in it makes the outcome the category redirect, built
  from the first such facet; and when no facet has a non-empty category value, a
  facet with a non-empty audience value makes it the audience redirect.
\<close>

theorem category_beats_tag:
  assumes "\<not> truthy q" and "facets \<noteq> []" and "hd facets \<noteq> []"
    and "t \<in> set facets" and "has_value tag_facet t"
  shows
    "((\<exists>c\<in>set facets. has_value category_facet c) \<longrightarrow>
        (\<exists>c'. find (has_value category_facet) facets = Some c' \<and>
           redirect_ask_search slugify q facets language =
             Inr (redirect_to_category (slugify (str_replace category_facet [] c')) language)))
   \<and> ((\<forall>g\<in>set facets. \<not> has_value category_facet g) \<and>
      (\<exists>a\<in>set facets. has_value audience_facet a) \<longrightarrow>
        (\<exists>a'. find (has_value audience_facet) facets = Some a' \<and>
           redirect_ask_search slugify q facets language =
             Inr (redirect_to_audience
                    (slugify (str_replace ''+'' ''-'' (str_replace audience_facet [] a'))))))"
proof -
  note eq = redirect_ask_search_facets [OF assms(1-3), of slugify language]
  have c: "\<exists>c'. find (has_value category_facet) facets = Some c' \<and>
           redirect_ask_search slugify q facets language =
             Inr (redirect_to_category (slugify (str_replace category_facet [] c')) language)"
    if "\<exists>c\<in>set facets. has_value category_facet c"
  proof -
    from that have "find (has_value category_facet) facets \<noteq> None"
      by (auto simp: find_None_iff)
    then obtain c' where "find (has_value category_facet) facets = Some c'"
      by auto
    with eq show ?thesis by simp
  qed
  have a: "\<exists>a'. find (has_value audience_facet) facets = Some a' \<and>
           redirect_ask_search slugify q facets language =
             Inr (redirect_to_audience
                    (slugify (str_replace ''+'' ''-'' (str_replace audience_facet [] a'))))"
    if "\<forall>g\<in>set facets. \<not> has_value category_facet g"
      and "\<exists>a\<in>set facets. has_value audience_facet a"
  proof -
    from that(1) have "find (has_value category_facet) facets = None"
      by (rule find_absent)
    moreover from that(2) have "find (has_value audience_facet) facets \<noteq> None"
      by (auto simp: find_None_iff)
    then obtain a' where "find (has_value audience_facet) facets = Some a'"
      by auto
    ultimately show ?thesis using eq by simp
  qed
  from c a show ?thesis by blast
qed

theorem category_beats_tag_witness:
  "\<not> truthy None \<and>
   has_value tag_facet ''tag_exact:loans'' \<and> has_value category_facet ''category_exact:mortgages'' \<and>
   redirect_ask_search id None [''tag_exact:loans'', ''category_exact:mortgages''] ''en'' =
     Inr (PermanentRedirect ''/ask-cfpb/category-mortgages/'') \<and>
   redirect_ask_search id None [''tag_exact:loans'', ''audience_exact:students''] ''en'' =
     Inr (PermanentRedirect ''/ask-cfpb/audience-students/'')"
  using category_beats_tag [of None "[''tag_exact:loans'', ''category_exact:mortgages'']"
          "''tag_exact:loans''" id "''en''"]
        category_beats_tag [of None "[''tag_exact:loans'', ''audience_exact:students'']"
          "''tag_exact:loans''" id "''en''"]
  by (simp add: truthy_def has_value_def category_facet_def audience_facet_def tag_facet_def
        redirect_to_category_def redirect_to_audience_def)

theorem category_beats_tag_counterexample:
  "has_value category_facet ''category_exact:mortgages'' \<and> has_value tag_facet ''tag_exact:loans'' \<and>
   redirect_ask_search id None ['''', ''category_exact:mortgages'', ''tag_exact:loans''] ''en'' =
     Inr (PermanentRedirect ''/ask-cfpb/search/'')"
  by (simp add: redirect_ask_search_def truthy_def has_value_def category_facet_def tag_facet_def)

text \<open>
  C4, as amended.  Take a request with no query text whose facet list has a
  non-empty first element, and a facet \<open>f\<close> of the list with the facets \<open>pre\<close>
  before it.  The three facet types are treated alike, in the order category,
  audience, tag.  If \<open>f\<close> has a non-empty category value and no facet of \<open>pre\<close>
  has one, the outcome is the category redirect built from \<open>f\<close>, also when
  facets of \<open>pre\<close> hold the category marker with an empty value.  If no facet of
  the list has a non-empty category value, the same holds for the audience marker
  and the audience redirect.  If no facet of the list has a non-empty category or
  audience value, the same holds for the tag marker and the tag redirect.  So a
  category or tag facet with an empty value is passed over like a facet without
  the marker and a later facet of its type with a non-empty value is consulted,
  exactly as for audience.
\<close>

theorem first_nonempty_value_decides:
  assumes "\<not> truthy q" and "facets = pre @ f # post" and "hd facets \<noteq> []"
  shows
    "((\<forall>g\<in>set pre. \<not> has_value category_facet g) \<and> has_value category_facet f \<longrightarrow>
        redirect_ask_search slugify q facets language =
          Inr (redirect_to_category (slugify (str_replace category_facet [] f)) language))
   \<and> ((\<forall>g\<in>set facets. \<not> has_value category_facet g) \<and>
      (\<forall>g\<in>set pre. \<not> has_value audience_facet g) \<and> has_value audience_facet f \<longrightarrow>
        redirect_ask_search slugify q facets language =
          Inr (redirect_to_audience
                 (slugify (str_replace ''+'' ''-'' (str_replace audience_facet [] f)))))
   \<and> ((\<forall>g\<in>set facets. \<not> has_value category_facet g \<and> \<not> has_value audience_facet g) \<and>
      (\<forall>g\<in>set pre. \<not> has_value tag_facet g) \<and> has_value tag_facet f \<longrightarrow>
        redirect_ask_search slugify q facets language =
          Inr (redirect_to_tag (underscored (str_replace tag_facet [] f)) language))"
proof -
  from assms(2) have ne: "facets \<noteq> []" by simp
  note eq = redirect_ask_search_facets [OF assms(1) ne assms(3), of slugify language]
  have c: "redirect_ask_search slugify q facets language =
          Inr (redirect_to_category (slugify (str_replace category_facet [] f)) language)"
    if "\<forall>g\<in>set pre. \<not> has_value category_facet g" "has_value category_facet f"
  proof -
    from that have "find (has_value category_facet) facets = Some f"
      unfolding assms(2) by (rule find_first)
    with eq show ?thesis by simp
  qed
  have a: "redirect_ask_search slugify q facets language =
          Inr (redirect_to_audience
                 (slugify (str_replace ''+'' ''-'' (str_replace audience_facet [] f))))"
    if "\<forall>g\<in>set facets. \<not> has_value category_facet g"
       "\<forall>g\<in>set pre. \<not> has_value audience_facet g" "has_value audience_facet f"
  proof -
    from that(1) have "find (has_value category_facet) facets = None"
      by (rule find_absent)
    moreover from that(2,3) have "find (has_value audience_facet) facets = Some f"
      unfolding assms(2) by (rule find_first)
    ultimately show ?thesis using eq by simp
  qed
  have t: "redirect_ask_search slugify q facets language =
          Inr (redirect_to_tag (underscored (str_replace tag_facet [] f)) language)"
    if "\<forall>g\<in>set facets. \<not> has_value category_facet g \<and> \<not> has_value audience_facet g"
       "\<forall>g\<in>set pre. \<not> has_value tag_facet g" "has_value tag_facet f"
  proof -
    from that(1) have "find (has_value category_facet) facets = None"
      and "find (has_value audience_facet) facets = None"
      by (simp_all add: find_None_iff)
    moreover from that(2,3) have "find (has_value tag_facet) facets = Some f"
      unfolding assms(2) by (rule find_first)
    ultimately show ?thesis using eq by simp
  qed
  from c a t show ?thesis by blast
qed

theorem first_nonempty_value_decides_witness:
  "\<not> truthy None
   \<and> hd [''sort=new'', ''category_exact:'', ''category_exact:credit-cards'', ''tag_exact:loans''] \<noteq> []
   \<and> redirect_ask_search id None
        [''sort=new'', ''category_exact:'', ''category_exact:credit-cards'', ''tag_exact:loans''] ''es'' =
       Inr (PermanentRedirect ''/es/obtener-respuestas/categoria-credit-cards/'')
   \<and> redirect_ask_search id None
        [''category_exact:'', ''audience_exact:'', ''audience_exact:students'', ''tag_exact:loans''] ''en'' =
       Inr (PermanentRedirect ''/ask-cfpb/audience-students/'')
   \<and> redirect_ask_search id None
        [''audience_exact:'', ''tag_exact:'', ''tag_exact:loans'', ''tag_exact:cars''] ''en'' =
       Inr (PermanentRedirect ''/ask-cfpb/search-by-tag/loans/'')"
  using first_nonempty_value_decides
          [of None "[''sort=new'', ''category_exact:'', ''category_exact:credit-cards'', ''tag_exact:loans'']"
              "[''sort=new'', ''category_exact:'']" "''category_exact:credit-cards''"
              "[''tag_exact:loans'']" id "''es''"]
        first_nonempty_value_decides
          [of None "[''category_exact:'', ''audience_exact:'', ''audience_exact:students'', ''tag_exact:loans'']"
              "[''category_exact:'', ''audience_exact:'']" "''audience_exact:students''"
              "[''tag_exact:loans'']" id "''en''"]
        first_nonempty_value_decides
          [of None "[''audience_exact:'', ''tag_exact:'', ''tag_exact:loans'', ''tag_exact:cars'']"
              "[''audience_exact:'', ''tag_exact:'']" "''tag_exact:loans''"
              "[''tag_exact:cars'']" id "''en''"]
  by (simp add: truthy_def has_value_def category_facet_def audience_facet_def tag_facet_def
        redirect_to_category_def redirect_to_audience_def redirect_to_tag_def)

theorem first_occurrence_counterexample:
  "str_contains category_facet ''category_exact:'' \<and> str_replace category_facet [] ''category_exact:'' = []
   \<and> redirect_ask_search id None [''category_exact:'', ''category_exact:mortgages''] ''en'' =
       Inr (PermanentRedirect ''/ask-cfpb/category-mortgages/'')"
  by (simp add: redirect_ask_search_def truthy_def category_facet_def redirect_to_category_def)



text \<open>
  C6, as amended.  With no query text, a facet list whose first element is not
  empty, and no facet with a non-empty category or audience value, the first tag
  facet with a non-empty value gives the permanent redirect whose tag segment is
  that value with every space, every \<^verbatim>\<open>%20\<close> and every \<^verbatim>\<open>+\<close> turned into an
  underscore and nothing else changed, put into the Spanish template when the
  language is \<^verbatim>\<open>es\<close> and into the English one otherwise.  The facet
  \<^verbatim>\<open>tag_exact:pay day loan\<close> with language \<^verbatim>\<open>es\<close> redirects to
  \<^verbatim>\<open>/es/obtener-respuestas/buscar-por-etiqueta/pay_day_loan/\<close>.
\<close>

theorem tag_redirect:
  assumes "\<not> truthy q" and "facets \<noteq> []" and "hd facets \<noteq> []"
    and "\<forall>g\<in>set facets. \<not> has_value category_facet g \<and> \<not> has_value audience_facet g"
    and "find (has_value tag_facet) facets = Some f"
  shows
    "redirect_ask_search slugify q facets language =
       Inr (PermanentRedirect
         ((if language = ''es'' then ''/es/obtener-respuestas/buscar-por-etiqueta/''
           else ''/ask-cfpb/search-by-tag/'')
          @ underscored (str_replace tag_facet [] f) @ ''/''))
   \<and> underscored (str_replace tag_facet [] f) =
       str_replace ''+'' ''_'' (str_replace ''%20'' ''_'' (str_replace '' '' ''_''
         (str_replace tag_facet [] f)))
   \<and> redirect_ask_search slugify q [''tag_exact:pay day loan''] ''es'' =
       Inr (PermanentRedirect ''/es/obtener-respuestas/buscar-por-etiqueta/pay_day_loan/'')"
proof -
  from assms(4) have "find (has_value category_facet) facets = None"
    and "find (has_value audience_facet) facets = None"
    by (simp_all add: find_None_iff)
  with redirect_ask_search_facets [OF assms(1-3), of slugify language] assms(5)
  have 1: "redirect_ask_search slugify q facets language =
       Inr (PermanentRedirect
         ((if language = ''es'' then ''/es/obtener-respuestas/buscar-por-etiqueta/''
           else ''/ask-cfpb/search-by-tag/'')
          @ underscored (str_replace tag_facet [] f) @ ''/''))"
    by (simp add: redirect_to_tag_def)
  have 2: "underscored (str_replace tag_facet [] f) =
       str_replace ''+'' ''_'' (str_replace ''%20'' ''_'' (str_replace '' '' ''_''
         (str_replace tag_facet [] f)))"
    by (simp only: underscored_refines)
  have 3: "redirect_ask_search slugify q [''tag_exact:pay day loan''] ''es'' =
       Inr (PermanentRedirect ''/es/obtener-respuestas/buscar-por-etiqueta/pay_day_loan/'')"
    using assms(1)
    by (simp add: redirect_ask_search_def category_facet_def audience_facet_def tag_facet_def
          redirect_to_tag_def)
  from 1 2 3 show ?thesis by blast
qed

theorem tag_redirect_witness:
  "\<not> truthy (Some '''')
   \<and> find (has_value tag_facet) [''category_exact:'', ''tag_exact:'', ''tag_exact:car+loan%20rates now'']
       = Some ''tag_exact:car+loan%20rates now''
   \<and> redirect_ask_search id (Some '''')
        [''category_exact:'', ''tag_exact:'', ''tag_exact:car+loan%20rates now''] ''en'' =
       Inr (PermanentRedirect ''/ask-cfpb/search-by-tag/car_loan_rates_now/'')"
  using tag_redirect [of "Some ''''" "[''category_exact:'', ''tag_exact:'', ''tag_exact:car+loan%20rates now'']"
          "''tag_exact:car+loan%20rates now''" id "''en''"]
  by (simp add: truthy_def has_value_def category_facet_def audience_facet_def tag_facet_def)

theorem tag_redirect_counterexample:
  "has_value tag_facet ''tag_exact:pay day loan''
   \<and> redirect_ask_search id (Some '''') ['''', ''tag_exact:pay day loan''] ''es'' =
       Inr (PermanentRedirect ''/ask-cfpb/search/'')"
  by (simp add: redirect_ask_search_def truthy_def has_value_def tag_facet_def)




text \<open>
  C10.  A facet is recognised as a category, audience or tag facet when the marker
  occurs anywhere in it, at the start or not: a request with no query text and the
  single facet \<open>pre @ marker @ post\<close> is redirected by the marker's rule, and the
  value the redirect is built from is the facet with the marker's occurrences
  removed by \<^verbatim>\<open>replace\<close>.  That removal leaves a string without the marker as it
  is, and on a string whose first occurrence starts behind \<open>pre\<close> it keeps \<open>pre\<close>,
  drops the occurrence and goes on in the same way behind it.
\<close>

theorem facet_marker_anywhere:
  assumes "\<not> truthy q"
  shows
    "(\<forall>m\<in>{category_facet, audience_facet, tag_facet}. \<forall>facet.
        str_contains m facet \<longleftrightarrow> (\<exists>pre post. facet = pre @ m @ post))
   \<and> (str_replace category_facet [] (pre @ category_facet @ post) \<noteq> [] \<longrightarrow>
        redirect_ask_search slugify q [pre @ category_facet @ post] language =
          Inr (redirect_to_category
                 (slugify (str_replace category_facet [] (pre @ category_facet @ post))) language))
   \<and> (\<not> has_value category_facet (pre @ audience_facet @ post) \<and>
      str_replace audience_facet [] (pre @ audience_facet @ post) \<noteq> [] \<longrightarrow>
        redirect_ask_search slugify q [pre @ audience_facet @ post] language =
          Inr (redirect_to_audience
                 (slugify (str_replace ''+'' ''-''
                    (str_replace audience_facet [] (pre @ audience_facet @ post))))))
   \<and> (\<not> has_value category_facet (pre @ tag_facet @ post) \<and>
      \<not> has_value audience_facet (pre @ tag_facet @ post) \<and>
      str_replace tag_facet [] (pre @ tag_facet @ post) \<noteq> [] \<longrightarrow>
        redirect_ask_search slugify q [pre @ tag_facet @ post] language =
          Inr (redirect_to_tag
                 (underscored (str_replace tag_facet [] (pre @ tag_facet @ post))) language))
   \<and> (\<forall>m\<in>{category_facet, audience_facet, tag_facet}. \<forall>s.
        \<not> str_contains m s \<longrightarrow> str_replace m [] s = s)
   \<and> (\<forall>m\<in>{category_facet, audience_facet, tag_facet}. \<forall>before after.
        \<not> str_contains m (before @ butlast m) \<longrightarrow>
          str_replace m [] (before @ m @ after) = before @ str_replace m [] after)"
proof -
  have ne: "m \<noteq> []" if "m \<in> {category_facet, audience_facet, tag_facet}" for m
    using that by (auto simp: category_facet_def audience_facet_def tag_facet_def)
  have occ: "str_contains m (pre @ m @ post)" for m
    by (auto simp: str_contains_iff)
  have nonempty: "pre @ m @ post \<noteq> []" if "m \<in> {category_facet, audience_facet, tag_facet}" for m
    using ne [OF that] by simp
  have eq: "redirect_ask_search slugify q [pre @ m @ post] language =
    (case find (has_value category_facet) [pre @ m @ post] of
       Some f \<Rightarrow> Inr (redirect_to_category (slugify (str_replace category_facet [] f)) language)
     | None \<Rightarrow>
        (case find (has_value audience_facet) [pre @ m @ post] of
           Some f \<Rightarrow> Inr (redirect_to_audience
                      (slugify (str_replace ''+'' ''-'' (str_replace audience_facet [] f))))
         | None \<Rightarrow>
            (case find (has_value tag_facet) [pre @ m @ post] of
               Some f \<Rightarrow> Inr (redirect_to_tag (underscored (str_replace tag_facet [] f)) language)
             | None \<Rightarrow> Inl Http404)))"
    if "m \<in> {category_facet, audience_facet, tag_facet}" for m
    using nonempty [OF that] by (intro redirect_ask_search_facets assms) simp_all
  have 1: "\<forall>m\<in>{category_facet, audience_facet, tag_facet}. \<forall>facet.
        str_contains m facet \<longleftrightarrow> (\<exists>pre post. facet = pre @ m @ post)"
    by (simp only: str_contains_iff) simp
  have 2: "str_replace category_facet [] (pre @ category_facet @ post) \<noteq> [] \<longrightarrow>
        redirect_ask_search slugify q [pre @ category_facet @ post] language =
          Inr (redirect_to_category
                 (slugify (str_replace category_facet [] (pre @ category_facet @ post))) language)"
    using occ [of category_facet] by (subst eq) (simp_all add: has_value_def)
  have 3: "\<not> has_value category_facet (pre @ audience_facet @ post) \<and>
      str_replace audience_facet [] (pre @ audience_facet @ post) \<noteq> [] \<longrightarrow>
        redirect_ask_search slugify q [pre @ audience_facet @ post] language =
          Inr (redirect_to_audience
                 (slugify (str_replace ''+'' ''-''
                    (str_replace audience_facet [] (pre @ audience_facet @ post)))))"
    using occ [of audience_facet] by (subst eq) (simp_all add: has_value_def)
  have 4: "\<not> has_value category_facet (pre @ tag_facet @ post) \<and>
      \<not> has_value audience_facet (pre @ tag_facet @ post) \<and>
      str_replace tag_facet [] (pre @ tag_facet @ post) \<noteq> [] \<longrightarrow>
        redirect_ask_search slugify q [pre @ tag_facet @ post] language =
          Inr (redirect_to_tag
                 (underscored (str_replace tag_facet [] (pre @ tag_facet @ post))) language)"
    using occ [of tag_facet] by (subst eq) (simp_all add: has_value_def)
  have 5: "\<forall>m\<in>{category_facet, audience_facet, tag_facet}. \<forall>s.
        \<not> str_contains m s \<longrightarrow> str_replace m [] s = s"
    using ne replace_absent by blast
  have 6: "\<forall>m\<in>{category_facet, audience_facet, tag_facet}. \<forall>before after.
        \<not> str_contains m (before @ butlast m) \<longrightarrow>
          str_replace m [] (before @ m @ after) = before @ str_replace m [] after"
  proof (intro ballI allI impI)
    fix m before after
    assume "m \<in> {category_facet, audience_facet, tag_facet}"
      and "\<not> str_contains m (before @ butlast m)"
    then have "str_replace m [] (before @ m @ after) = before @ [] @ str_replace m [] after"
      by (intro replace_first ne)
    then show "str_replace m [] (before @ m @ after) = before @ str_replace m [] after"
      by simp
  qed
  from 1 2 3 4 5 6 show ?thesis by blast
qed

theorem facet_marker_anywhere_witness:
  "\<not> truthy None
   \<and> redirect_ask_search id None [''xx'' @ category_facet @ ''credit-'' @ category_facet @ ''cards''] ''en'' =
       Inr (PermanentRedirect ''/ask-cfpb/category-xxcredit-cards/'')
   \<and> redirect_ask_search id None [''my '' @ audience_facet @ ''students''] ''en'' =
       Inr (PermanentRedirect ''/ask-cfpb/audience-my students/'')
   \<and> redirect_ask_search id None [''a'' @ tag_facet @ ''b c''] ''en'' =
       Inr (PermanentRedirect ''/ask-cfpb/search-by-tag/ab_c/'')"
  using facet_marker_anywhere [of None "''xx''" "''credit-'' @ category_facet @ ''cards''" id "''en''"]
        facet_marker_anywhere [of None "''my ''" "''students''" id "''en''"]
        facet_marker_anywhere [of None "''a''" "''b c''" id "''en''"]
  by (simp add: truthy_def has_value_def category_facet_def audience_facet_def tag_facet_def
        redirect_to_category_def redirect_to_audience_def redirect_to_tag_def)


section \<open>Facts about the annotator's loop\<close>

lemma objects_get_none:
  "objects_get sites = Inl DoesNotExist \<longleftrightarrow> filter is_default_site sites = []"
  by (simp add: objects_get_def split: list.split)

lemma objects_get_error:
  "objects_get sites = Inl e \<Longrightarrow> e = DoesNotExist \<or> e = MultipleObjectsReturned"
  by (auto simp: objects_get_def split: list.splits)


lemma insert_after_sibling:
  assumes "node_id c \<notin> node_id ` set xs"
  shows "insert_after (node_id c) new (Tag j name attrs (xs @ c # ys)) =
           Tag j name attrs (xs @ c # new # ys)"
proof -
  from assms have "takeWhile (\<lambda>d. node_id d \<noteq> node_id c) (xs @ c # ys) = xs"
    by (induction xs) auto
  then have "index_of (node_id c) (xs @ c # ys) = length xs"
    by (simp add: index_of_def)
  then show ?thesis by (simp add: list_insert_def)
qed

text \<open>
  Putting a new \<^verbatim>\<open>sup\<close> tag into the document changes neither which anchors the
  document has, nor their order, identities or attributes.  So the links found
  before the loop are the anchors of the document at every iteration, with the
  attributes they had when they were found.
\<close>

lemma insert_after_root:
  "node_id (insert_after i new t) = node_id t"
  "tag_get (insert_after i new t) key = tag_get t key"
  "has_name name (insert_after i new t) = has_name name t"
  by (cases t; simp)+

lemma insert_after_keeps_links:
  assumes "\<not> has_name name new" and "filter (has_name name) (descendants new) = []"
  shows "map (\<lambda>n. (node_id n, tag_get n key))
           (filter (has_name name) (descendants (insert_after i new t))) =
         map (\<lambda>n. (node_id n, tag_get n key)) (filter (has_name name) (descendants t))"
proof (induction t)
  case (NavigableString j s)
  show ?case by simp
next
  case (Tag j nm attrs contents)
  let ?sig = "\<lambda>ns. map (\<lambda>n. (node_id n, tag_get n key)) (filter (has_name name) ns)"
  let ?below = "\<lambda>cs. concat (map (\<lambda>c. c # descendants c) cs)"
  show ?case
  proof (cases "i \<in> node_id ` set contents")
    case True
    let ?k = "index_of i contents + 1"
    have "?below (list_insert ?k new contents) =
          ?below (take ?k contents) @ (new # descendants new) @ ?below (drop ?k contents)"
      by (simp add: list_insert_def)
    then have "?sig (?below (list_insert ?k new contents)) =
          ?sig (?below (take ?k contents)) @ ?sig (?below (drop ?k contents))"
      using assms by simp
    also have "\<dots> = ?sig (?below (take ?k contents @ drop ?k contents))"
      by (simp del: append_take_drop_id)
    also have "\<dots> = ?sig (?below contents)"
      by (simp only: append_take_drop_id)
    finally show ?thesis using True by simp
  next
    case False
    have "?sig (?below (map (insert_after i new) cs)) = ?sig (?below cs)"
      if "set cs \<subseteq> set contents" for cs
      using that
    proof (induction cs)
      case Nil
      show ?case by simp
    next
      case (Cons c cs)
      then have "c \<in> set contents" by simp
      from Tag.IH [OF this] Cons show ?case
        by (simp add: insert_after_root)
    qed
    then have "?sig (?below (map (insert_after i new) contents)) = ?sig (?below contents)"
      by simp
    with False show ?thesis by simp
  qed
qed

lemma new_sup_no_links:
  "name \<noteq> ''sup'' \<Longrightarrow> \<not> has_name name (new_sup soup index)"
  "filter (has_name name) (descendants (new_sup soup index)) = []"
  by (simp_all add: new_sup_def)

lemma loop_skips:
  "\<forall>l\<in>set links. \<not> truthy (tag_get l ''href'') \<Longrightarrow>
   annotate_loop urljoin root links soup footnotes index = Inr (soup, footnotes)"
  by (induction links) simp_all

lemma loop_error:
  "annotate_loop urljoin root links soup footnotes index = Inl e \<Longrightarrow> e = ValueError"
proof (induction links arbitrary: soup footnotes index)
  case Nil
  then show ?case by simp
next
  case (Cons link links)
  show ?case
  proof (cases "truthy (tag_get link ''href'')")
    case False
    with Cons show ?thesis by simp
  next
    case True
    show ?thesis
    proof (cases "urljoin root (the (tag_get link ''href''))")
      case None
      with True Cons.prems show ?thesis by simp
    next
      case (Some url)
      with True Cons.prems have "annotate_loop urljoin root links
          (insert_after (node_id link) (new_sup soup index) soup)
          (footnotes @ [(index, url)]) (index + 1) = Inl e"
        by simp
      then show ?thesis by (rule Cons.IH)
    qed
  qed
qed




section \<open>The claims about the annotator\<close>



text \<open>
  C8.  \<^verbatim>\<open>annotate_links\<close> raises its \<^verbatim>\<open>RuntimeError\<close> exactly when the site table
  holds no default site.  It then raises before the text is parsed: the outcome is
  the error alone, whatever the text, the parser, \<^verbatim>\<open>urljoin\<close> and the serialiser
  are, and no document or footnote comes back.
\<close>

theorem configuration_error_iff:
  "((\<exists>msg. annotate_links sites bs urljoin str_soup answer_text = Inl (RuntimeError msg))
      \<longleftrightarrow> filter is_default_site sites = [])
   \<and> (filter is_default_site sites = [] \<longrightarrow>
        (\<forall>bs' urljoin' str_soup' text'.
           annotate_links sites bs' urljoin' str_soup' text' =
             Inl (RuntimeError ''no default wagtail site configured'')))"
proof -
  have none: "annotate_links sites bs' urljoin' str_soup' text' =
             Inl (RuntimeError ''no default wagtail site configured'')"
    if "filter is_default_site sites = []" for bs' urljoin' str_soup' text'
  proof -
    from that have "objects_get sites = Inl DoesNotExist"
      by (simp only: objects_get_none)
    then show ?thesis by (simp add: annotate_links_def)
  qed
  have some: "filter is_default_site sites = []"
    if r: "annotate_links sites bs urljoin str_soup answer_text = Inl (RuntimeError msg)" for msg
  proof (cases "objects_get sites")
    case (Inl e)
    from objects_get_error [OF Inl] r Inl have "e = DoesNotExist"
      by (auto simp: annotate_links_def)
    with Inl show ?thesis by (simp only: objects_get_none)
  next
    case (Inr default_site)
    show ?thesis
    proof (cases "annotate_loop urljoin (root_url default_site)
        (findAll ''a'' (bs answer_text)) (bs answer_text) [] 1")
      case (Inl e)
      then have "e = ValueError" by (rule loop_error)
      with Inl Inr r show ?thesis by (simp add: annotate_links_def)
    next
      case (Inr res)
      with \<open>objects_get sites = Inr default_site\<close> r show ?thesis
        by (cases res) (simp add: annotate_links_def)
    qed
  qed
  from none some show ?thesis by blast
qed

theorem configuration_error_iff_witness:
  "filter is_default_site [\<lparr>is_default_site = False, root_url = ''http://cf.gov''\<rparr>] = []
   \<and> annotate_links [\<lparr>is_default_site = False, root_url = ''http://cf.gov''\<rparr>]
        (\<lambda>text. Tag 0 ''[document]'' [] [Tag 1 ''a'' [(''href'', ''/a/'')] []])
        (\<lambda>base url. Some (base @ url)) (\<lambda>soup. ''html'') ''text'' =
       Inl (RuntimeError ''no default wagtail site configured'')
   \<and> annotate_links [\<lparr>is_default_site = True, root_url = ''http://cf.gov''\<rparr>]
        (\<lambda>text. Tag 0 ''[document]'' [] [Tag 1 ''a'' [(''href'', ''/a/'')] []])
        (\<lambda>base url. Some (base @ url)) (\<lambda>soup. ''html'') ''text'' =
       Inr (''html'', [(1, ''http://cf.gov/a/'')])"
  using configuration_error_iff
    [of "[\<lparr>is_default_site = False, root_url = ''http://cf.gov''\<rparr>]"
        "\<lambda>text. Tag 0 ''[document]'' [] [Tag 1 ''a'' [(''href'', ''/a/'')] []]"
        "\<lambda>base url. Some (base @ url)" "\<lambda>soup. ''html''" "''text''"]
  by (simp add: annotate_links_def objects_get_def findAll_def truthy_def)

text \<open>
  C9.  With a default site configured, a text whose parsed document has no anchor
  with a present, non-empty \<^verbatim>\<open>href\<close> comes back as the serialisation of that very
  document, which the loop leaves as the parser built it, together with the empty
  footnote list.
\<close>

theorem no_links_unchanged:
  assumes "objects_get sites = Inr default_site"
    and "\<forall>l\<in>set (findAll ''a'' (bs answer_text)). \<not> truthy (tag_get l ''href'')"
  shows "annotate_links sites bs urljoin str_soup answer_text =
           Inr (str_soup (bs answer_text), [])
       \<and> annotate_loop urljoin (root_url default_site)
           (findAll ''a'' (bs answer_text)) (bs answer_text) [] 1 = Inr (bs answer_text, [])"
proof -
  from assms(2) have "annotate_loop urljoin (root_url default_site)
      (findAll ''a'' (bs answer_text)) (bs answer_text) [] 1 = Inr (bs answer_text, [])"
    by (rule loop_skips)
  with assms(1) show ?thesis by (simp add: annotate_links_def)
qed

theorem no_links_unchanged_witness:
  "objects_get [\<lparr>is_default_site = True, root_url = ''http://cf.gov''\<rparr>] =
     Inr \<lparr>is_default_site = True, root_url = ''http://cf.gov''\<rparr>
   \<and> findAll ''a'' (Tag 0 ''[document]'' []
        [Tag 1 ''p'' [] [NavigableString 2 ''no links'', Tag 3 ''a'' [(''name'', ''top'')] []]]) =
       [Tag 3 ''a'' [(''name'', ''top'')] []]
   \<and> annotate_links [\<lparr>is_default_site = True, root_url = ''http://cf.gov''\<rparr>]
        (\<lambda>text. Tag 0 ''[document]'' []
           [Tag 1 ''p'' [] [NavigableString 2 ''no links'', Tag 3 ''a'' [(''name'', ''top'')] []]])
        (\<lambda>base url. None) (\<lambda>soup. if soup = Tag 0 ''[document]'' []
           [Tag 1 ''p'' [] [NavigableString 2 ''no links'', Tag 3 ''a'' [(''name'', ''top'')] []]]
           then ''same'' else ''changed'') ''text'' =
       Inr (''same'', [])"
  using no_links_unchanged
    [of "[\<lparr>is_default_site = True, root_url = ''http://cf.gov''\<rparr>]"
        "\<lparr>is_default_site = True, root_url = ''http://cf.gov''\<rparr>"
        "\<lambda>text. Tag 0 ''[document]'' []
           [Tag 1 ''p'' [] [NavigableString 2 ''no links'', Tag 3 ''a'' [(''name'', ''top'')] []]]"
        "''text''" "\<lambda>base url. None"
        "\<lambda>soup. if soup = Tag 0 ''[document]'' []
           [Tag 1 ''p'' [] [NavigableString 2 ''no links'', Tag 3 ''a'' [(''name'', ''top'')] []]]
           then ''same'' else ''changed''"]
  by (simp add: objects_get_def findAll_def truthy_def)

end
